theory Spec2Isabelle
  imports Main "HOL-Library.Sublist"
begin

section \<open>Offline download storage checks: the host and the effects of the code\<close>

text \<open>
  The development embeds \<^verbatim>\<open>src/services/storage-permission-service.ts\<close> (class
  \<^verbatim>\<open>StoragePermissionService\<close>) and the download pre-flight of
  \<^verbatim>\<open>src/components/quran/OfflineDownloadManager.tsx\<close>.

  JavaScript numbers that hold byte counts and verse counts are modelled as \<open>int\<close>
  (they are integral and far below \<open>2^53\<close>, where the arithmetic of the code is exact).

  The code runs against a browser. The browser is a record \<open>world\<close>: what the storage
  manager, the cache storage, \<^verbatim>\<open>localStorage\<close> and the offline storage service answer,
  and what the store holds. Everything the code does on the browser is appended to
  \<open>trace\<close>, in order, so that "this call was never made" is a statement about the trace.
  The answers of the storage manager may depend on the trace so far: a second
  \<^verbatim>\<open>estimate()\<close> may answer differently after a cache bucket has been deleted.
\<close>

datatype exn = TypeError | SecurityError | Rejected

text \<open>The console lines of the service, one constructor per message of the source.\<close>

datatype console_msg =
    StorageStatusFailed       \<comment> \<open>\<^verbatim>\<open>console.error\<close> in \<^verbatim>\<open>getStoragePermissionStatus\<close>\<close>
  | StorageApiUnsupported     \<comment> \<open>\<^verbatim>\<open>console.warn\<close> in \<^verbatim>\<open>requestPersistentStorage\<close>\<close>
  | AlreadyPersistent         \<comment> \<open>\<^verbatim>\<open>console.log\<close>, storage was persistent already\<close>
  | PersistGranted            \<comment> \<open>\<^verbatim>\<open>console.log\<close>, the grant was given\<close>
  | PersistDenied             \<comment> \<open>\<^verbatim>\<open>console.log\<close>, the grant was refused\<close>
  | PersistRequestFailed      \<comment> \<open>\<^verbatim>\<open>console.error\<close> in \<^verbatim>\<open>requestPersistentStorage\<close>\<close>
  | SpaceCheckFailed          \<comment> \<open>\<^verbatim>\<open>console.error\<close> in \<^verbatim>\<open>checkAvailableSpace\<close>\<close>
  | CleanupReport int         \<comment> \<open>\<^verbatim>\<open>console.log\<close> of the freed bytes, end of \<^verbatim>\<open>cleanupOldData\<close>\<close>
  | CleanupFailed             \<comment> \<open>\<^verbatim>\<open>console.error\<close> in \<^verbatim>\<open>cleanupOldData\<close>\<close>
  | DownloadedList "int list" \<comment> \<open>\<^verbatim>\<open>console.log\<close> in \<^verbatim>\<open>loadDownloadedChapters\<close>\<close>
  | DownloadedListUpdated     \<comment> \<open>\<^verbatim>\<open>console.log\<close>, the list is rewritten after validation\<close>
  | DownloadedListFailed      \<comment> \<open>\<^verbatim>\<open>console.error\<close> in \<^verbatim>\<open>loadDownloadedChapters\<close>\<close>
  | StorageInfoFailed         \<comment> \<open>\<^verbatim>\<open>console.error\<close> in \<^verbatim>\<open>loadStorageInfo\<close>\<close>
  | DownloadFailed            \<comment> \<open>\<^verbatim>\<open>console.error\<close> in \<^verbatim>\<open>handleDownload\<close>\<close>

text \<open>The toasts of the download manager; the shortage and the count are their arguments.\<close>

datatype toast_msg =
    NoChaptersSelected
  | NoConnection
  | InsufficientSpace int
  | DownloadSucceeded nat
  | DownloadError
  | DownloadedListError

datatype event =
    StorageEstimate                  \<comment> \<open>\<^verbatim>\<open>navigator.storage.estimate()\<close>\<close>
  | StoragePersisted                 \<comment> \<open>\<^verbatim>\<open>navigator.storage.persisted()\<close>\<close>
  | StoragePersist                   \<comment> \<open>\<^verbatim>\<open>navigator.storage.persist()\<close>, the grant request\<close>
  | CachesKeys                       \<comment> \<open>\<^verbatim>\<open>caches.keys()\<close>\<close>
  | CachesDelete string              \<comment> \<open>\<^verbatim>\<open>caches.delete(name)\<close>\<close>
  | SetItem string string            \<comment> \<open>\<^verbatim>\<open>localStorage.setItem(key, value)\<close>\<close>
  | RemoveItem string                \<comment> \<open>\<^verbatim>\<open>localStorage.removeItem(key)\<close>\<close>
  | Console console_msg
  | Toast toast_msg
  | DownloadMultipleChapters "int list"   \<comment> \<open>\<^verbatim>\<open>offlineStorageService.downloadMultipleChapters\<close>\<close>
  | GetDownloadedChapters
  | IsChapterDownloaded int
  | UpdateDownloadedChapters "int list"
  | GetStorageSize

record DownloadProgress =
  chapterId :: int
  chapterName :: string
  progress :: int
  status :: string

text \<open>The state of the component \<^verbatim>\<open>OfflineDownloadManager\<close> (its \<^verbatim>\<open>useState\<close> cells).\<close>

record ui_state =
  selectedChapters :: "int list"
  downloadedChapters :: "int list"
  isDownloading :: bool
  downloadProgress :: "DownloadProgress option"
  overallProgress :: int
  storageInfo :: "int \<times> int"
  isOnline :: bool
  storagePermissionOpen :: bool
  estimatedDownloadSize :: int

text \<open>
  The browser. A reply \<open>None\<close> is a call that throws or a promise that rejects.
  \<^item> \<open>storage_in_navigator\<close>, \<open>persist_in_storage\<close>: the two \<^verbatim>\<open>in\<close> tests of
    \<^verbatim>\<open>isStorageAPISupported\<close>;
  \<^item> \<open>estimate_reply\<close>: \<^verbatim>\<open>{quota, usage}\<close>, each possibly undefined;
  \<^item> \<open>cache_names\<close>: the buckets of the cache storage; \<open>localStorage\<close>: its entries in
    key order;
  \<^item> \<open>localStorage_denied\<close>: every access to \<^verbatim>\<open>localStorage\<close> throws a SecurityError;
  \<^item> \<open>now_iso\<close>: what \<^verbatim>\<open>new Date().toISOString()\<close> gives;
  \<^item> \<open>svc_\<close>: the answers of \<^verbatim>\<open>offlineStorageService\<close>, whose file is not part of the
    sources at hand and which is therefore a parameter.
\<close>

record world =
  storage_in_navigator :: bool
  persist_in_storage :: bool
  estimate_reply :: "event list \<Rightarrow> (int option \<times> int option) option"
  persisted_reply :: "event list \<Rightarrow> bool option"
  persist_reply :: "event list \<Rightarrow> bool option"
  caches_in_window :: bool
  caches_keys_rejects :: bool
  caches_delete_rejects :: "string \<Rightarrow> bool"
  cache_names :: "string list"
  localStorage_denied :: bool
  localStorage :: "(string \<times> string) list"
  now_iso :: string
  svc_download :: "int list \<Rightarrow> (int \<times> DownloadProgress option) list \<times> bool"
  svc_downloaded :: "event list \<Rightarrow> int list option"
  svc_is_downloaded :: "int \<Rightarrow> bool option"
  svc_update_rejects :: bool
  svc_storage_size :: "(int \<times> int) option"
  ui :: ui_state
  trace :: "event list"

subsection \<open>Asynchronous code that may throw\<close>

text \<open>
  A method is a function from the world to its outcome and the world after it:
  \<open>Inl e\<close> is a thrown exception (a rejected promise), \<open>Inr x\<close> a returned value.
  \<^verbatim>\<open>await\<close> is \<open>io_bind\<close>; \<^verbatim>\<open>try { m } catch (error) { h }\<close> is \<open>io_try m h\<close>.
\<close>

type_synonym 'a io = "world \<Rightarrow> (exn + 'a) \<times> world"

definition io_return :: "'a \<Rightarrow> 'a io" where
  "io_return x w = (Inr x, w)"

definition io_throw :: "exn \<Rightarrow> 'a io" where
  "io_throw e w = (Inl e, w)"

definition io_bind :: "'a io \<Rightarrow> ('a \<Rightarrow> 'b io) \<Rightarrow> 'b io" where
  "io_bind m f w = (case m w of (Inl e, w') \<Rightarrow> (Inl e, w') | (Inr x, w') \<Rightarrow> f x w')"

definition io_try :: "'a io \<Rightarrow> (exn \<Rightarrow> 'a io) \<Rightarrow> 'a io" where
  "io_try m h w = (case m w of (Inl e, w') \<Rightarrow> h e w' | (Inr x, w') \<Rightarrow> (Inr x, w'))"

definition emit :: "event \<Rightarrow> unit io" where
  "emit e w = (Inr (), w\<lparr>trace := trace w @ [e]\<rparr>)"

definition of_reply :: "'a option \<Rightarrow> 'a io" where
  "of_reply r = (case r of None \<Rightarrow> io_throw Rejected | Some x \<Rightarrow> io_return x)"

subsection \<open>The storage manager\<close>

text \<open>
  Each call is recorded as it is attempted, and answered from the trace before it.
  Without \<^verbatim>\<open>navigator.storage\<close> the call is a TypeError. \<^verbatim>\<open>persist\<close> and \<^verbatim>\<open>persisted\<close> are the two halves of one capability of the
  StorageManager interface: a storage manager without \<^verbatim>\<open>persist\<close> has no
  \<^verbatim>\<open>persisted\<close> either.
\<close>

definition navigator_storage_estimate :: "(int option \<times> int option) io" where
  "navigator_storage_estimate w =
     io_bind (emit StorageEstimate) (\<lambda>_.
       if \<not> storage_in_navigator w then io_throw TypeError
       else of_reply (estimate_reply w (trace w))) w"

definition navigator_storage_persisted :: "bool io" where
  "navigator_storage_persisted w =
     io_bind (emit StoragePersisted) (\<lambda>_.
       if \<not> storage_in_navigator w \<or> \<not> persist_in_storage w then io_throw TypeError
       else of_reply (persisted_reply w (trace w))) w"

definition navigator_storage_persist :: "bool io" where
  "navigator_storage_persist w =
     io_bind (emit StoragePersist) (\<lambda>_.
       if \<not> storage_in_navigator w \<or> \<not> persist_in_storage w then io_throw TypeError
       else of_reply (persist_reply w (trace w))) w"

subsection \<open>The cache storage, \<^verbatim>\<open>localStorage\<close> and the clock\<close>

definition caches_keys :: "string list io" where
  "caches_keys w =
     io_bind (emit CachesKeys) (\<lambda>_.
       if caches_keys_rejects w then io_throw Rejected
       else io_return (cache_names w)) w"

text \<open>\<^verbatim>\<open>caches.delete(name)\<close> resolves to whether the bucket existed, and removes it.\<close>

definition caches_delete :: "string \<Rightarrow> bool io" where
  "caches_delete name =
     io_bind (emit (CachesDelete name)) (\<lambda>_ w.
       if caches_delete_rejects w name then io_throw Rejected w
       else (Inr (name \<in> set (cache_names w)),
             w\<lparr>cache_names := filter (\<lambda>n. n \<noteq> name) (cache_names w)\<rparr>))"

definition localStorage_length :: "nat io" where
  "localStorage_length w =
     (if localStorage_denied w then io_throw SecurityError w
      else io_return (length (localStorage w)) w)"

text \<open>\<^verbatim>\<open>localStorage.key(i)\<close> is \<^verbatim>\<open>null\<close> (here \<open>None\<close>) past the last entry.\<close>

definition localStorage_key :: "nat \<Rightarrow> string option io" where
  "localStorage_key i w =
     (if localStorage_denied w then io_throw SecurityError w
      else io_return (if i < length (localStorage w)
                      then Some (fst (localStorage w ! i)) else None) w)"

fun put_item :: "string \<Rightarrow> string \<Rightarrow> (string \<times> string) list \<Rightarrow> (string \<times> string) list" where
  "put_item k v [] = [(k, v)]"
| "put_item k v (p # ps) = (if fst p = k then (k, v) # ps else p # put_item k v ps)"

definition localStorage_setItem :: "string \<Rightarrow> string \<Rightarrow> unit io" where
  "localStorage_setItem k v =
     io_bind (emit (SetItem k v)) (\<lambda>_ w.
       if localStorage_denied w then io_throw SecurityError w
       else (Inr (), w\<lparr>localStorage := put_item k v (localStorage w)\<rparr>))"

definition localStorage_removeItem :: "string \<Rightarrow> unit io" where
  "localStorage_removeItem k =
     io_bind (emit (RemoveItem k)) (\<lambda>_ w.
       if localStorage_denied w then io_throw SecurityError w
       else (Inr (), w\<lparr>localStorage := filter (\<lambda>p. fst p \<noteq> k) (localStorage w)\<rparr>))"

text \<open>\<^verbatim>\<open>localStorage.getItem(key)\<close>, to read the store in the statements below.\<close>

definition stored :: "world \<Rightarrow> string \<Rightarrow> string option" where
  "stored w k = map_of (localStorage w) k"

definition new_Date_toISOString :: "string io" where
  "new_Date_toISOString w = io_return (now_iso w) w"

text \<open>\<^verbatim>\<open>s.includes(sub)\<close>: \<open>sub\<close> occurs in \<open>s\<close> as a contiguous run.\<close>

fun starts_with :: "string \<Rightarrow> string \<Rightarrow> bool" where
  "starts_with s [] = True"
| "starts_with [] (c # cs) = False"
| "starts_with (x # xs) (c # cs) = (x = c \<and> starts_with xs cs)"

fun str_includes :: "string \<Rightarrow> string \<Rightarrow> bool" where
  "str_includes [] sub = (sub = [])"
| "str_includes (x # xs) sub = (starts_with (x # xs) sub \<or> str_includes xs sub)"

section \<open>The storage permission service\<close>

record storage_status =
  persistent :: bool
  quota :: int
  usage :: int
  available :: int

record space_check =
  hasEnoughSpace :: bool
  availableBytes :: int
  requiredBytes :: int
  shortageBytes :: int

record chapter_data =
  verses_count :: int

text \<open>\<^verbatim>\<open>'storage' in navigator && 'persist' in navigator.storage\<close>\<close>

definition isStorageAPISupported :: "world \<Rightarrow> bool" where
  "isStorageAPISupported w = (storage_in_navigator w \<and> persist_in_storage w)"

text \<open>\<^verbatim>\<open>x || 0\<close> on a number that may be undefined.\<close>

definition or_zero :: "int option \<Rightarrow> int" where
  "or_zero x = (case x of None \<Rightarrow> 0 | Some v \<Rightarrow> v)"

definition zeroed_status :: storage_status where
  "zeroed_status = \<lparr>persistent = False, quota = 0, usage = 0, available = 0\<rparr>"

definition getStoragePermissionStatus :: "storage_status io" where
  "getStoragePermissionStatus =
     io_try
       (io_bind navigator_storage_estimate (\<lambda>estimate.
        io_bind navigator_storage_persisted (\<lambda>persistent'.
          let quota' = or_zero (fst estimate);
              usage' = or_zero (snd estimate);
              available' = quota' - usage'
          in io_return \<lparr>persistent = persistent', quota = quota',
                        usage = usage', available = available'\<rparr>)))
       (\<lambda>error.
        io_bind (emit (Console StorageStatusFailed)) (\<lambda>_.
          io_return zeroed_status))"

definition estimateChapterSize :: "int \<Rightarrow> int" where
  "estimateChapterSize versesCount =
     (let averageBytesPerVerse = 500;
          chapterMetadata = 1000
      in (versesCount * averageBytesPerVerse) + chapterMetadata)"

text \<open>\<^verbatim>\<open>chapters.reduce((total, chapter) => total + estimate(chapter.verses_count), 0)\<close>\<close>

definition estimateMultipleChaptersSize :: "chapter_data list \<Rightarrow> int" where
  "estimateMultipleChaptersSize chapters =
     foldl (\<lambda>total chapter. total + estimateChapterSize (verses_count chapter)) 0 chapters"

definition checkAvailableSpace :: "int \<Rightarrow> space_check io" where
  "checkAvailableSpace required =
     io_try
       (io_bind getStoragePermissionStatus (\<lambda>status.
          let enough = (available status \<ge> required);
              shortage = (if enough then 0 else required - available status)
          in io_return \<lparr>hasEnoughSpace = enough, availableBytes = available status,
                        requiredBytes = required, shortageBytes = shortage\<rparr>))
       (\<lambda>error.
        io_bind (emit (Console SpaceCheckFailed)) (\<lambda>_.
          io_return \<lparr>hasEnoughSpace = False, availableBytes = 0,
                      requiredBytes = required, shortageBytes = required\<rparr>))"

text \<open>
  \<^verbatim>\<open>requestPersistentStorage\<close>: the support gate, the short-circuit when storage is
  persistent already, the grant request, and the record of the decision in
  \<^verbatim>\<open>localStorage\<close>.
\<close>

definition requestPersistentStorage :: "bool io" where
  "requestPersistentStorage =
     io_try
       (\<lambda>w.
         (if \<not> isStorageAPISupported w then
            io_bind (emit (Console StorageApiUnsupported)) (\<lambda>_. io_return False)
          else
            io_bind navigator_storage_persisted (\<lambda>isPersistent.
              if isPersistent then
                io_bind (emit (Console AlreadyPersistent)) (\<lambda>_. io_return True)
              else
                io_bind navigator_storage_persist (\<lambda>granted.
                io_bind
                  (if granted then
                     io_bind (emit (Console PersistGranted)) (\<lambda>_.
                     io_bind (localStorage_setItem ''storage-permission-granted'' ''true'') (\<lambda>_.
                     io_bind new_Date_toISOString (\<lambda>date.
                       localStorage_setItem ''storage-permission-date'' date)))
                   else
                     io_bind (emit (Console PersistDenied)) (\<lambda>_.
                       localStorage_setItem ''storage-permission-granted'' ''false''))
                  (\<lambda>_. io_return granted)))) w)
       (\<lambda>error.
        io_bind (emit (Console PersistRequestFailed)) (\<lambda>_.
          io_return False))"

subsection \<open>Cleanup\<close>

text \<open>
  \<^verbatim>\<open>for (const cacheName of cacheNames)\<close>: the loop runs over the names that
  \<^verbatim>\<open>caches.keys()\<close> gave, with \<^verbatim>\<open>freedBytes\<close> as accumulator.
\<close>

fun cleanup_caches :: "string list \<Rightarrow> int \<Rightarrow> int io" where
  "cleanup_caches [] freedBytes = io_return freedBytes"
| "cleanup_caches (cacheName # rest) freedBytes =
     (if str_includes cacheName ''old'' \<or> str_includes cacheName ''temp'' then
        io_bind (caches_delete cacheName) (\<lambda>_.
          cleanup_caches rest (freedBytes + 1024 * 1024))
      else cleanup_caches rest freedBytes)"

text \<open>
  \<^verbatim>\<open>for (let i = 0; i < localStorage.length; i++)\<close>: the length is read again at every
  turn; \<^verbatim>\<open>key && (...)\<close> skips \<^verbatim>\<open>null\<close> and the empty key.
\<close>

definition key_matches :: "string option \<Rightarrow> bool" where
  "key_matches key =
     (case key of None \<Rightarrow> False
      | Some k \<Rightarrow> k \<noteq> [] \<and> (str_includes k ''temp-'' \<or> str_includes k ''cache-''))"

function collect_keys :: "nat \<Rightarrow> string list \<Rightarrow> string list io" where
  "collect_keys i keysToRemove w =
     (case localStorage_length w of
        (Inl e, w1) \<Rightarrow> (Inl e, w1)
      | (Inr n, w1) \<Rightarrow>
          if i < n then
            (case localStorage_key i w1 of
               (Inl e, w2) \<Rightarrow> (Inl e, w2)
             | (Inr key, w2) \<Rightarrow>
                 collect_keys (i + 1)
                   (if key_matches key then keysToRemove @ [the key] else keysToRemove) w2)
          else (Inr keysToRemove, w1))"
  by pat_completeness auto
termination
  by (relation "measure (\<lambda>(i, ks, w). length (localStorage w) - i)")
     (auto simp: localStorage_length_def localStorage_key_def io_return_def io_throw_def
           split: if_splits)

declare collect_keys.simps [simp del]

text \<open>\<^verbatim>\<open>keysToRemove.forEach(key => { removeItem(key); freedBytes += 1024 })\<close>\<close>

fun remove_keys :: "string list \<Rightarrow> int \<Rightarrow> int io" where
  "remove_keys [] freedBytes = io_return freedBytes"
| "remove_keys (key # rest) freedBytes =
     io_bind (localStorage_removeItem key) (\<lambda>_.
       remove_keys rest (freedBytes + 1024))"

text \<open>
  The whole body of \<^verbatim>\<open>cleanupOldData\<close> is one \<^verbatim>\<open>try\<close>; its \<^verbatim>\<open>catch\<close> logs and
  returns 0. The text of the final \<^verbatim>\<open>console.log\<close> (built by \<^verbatim>\<open>formatBytes\<close>) is
  kept as the number it shows.
\<close>

definition cleanupOldData :: "int io" where
  "cleanupOldData =
     io_try
       (io_bind
          (\<lambda>w. (if caches_in_window w then
                  io_bind caches_keys (\<lambda>cacheNames. cleanup_caches cacheNames 0)
                else io_return 0) w) (\<lambda>freedBytes.
        io_bind (collect_keys 0 []) (\<lambda>keysToRemove.
        io_bind (remove_keys keysToRemove freedBytes) (\<lambda>freedBytes.
        io_bind (emit (Console (CleanupReport freedBytes))) (\<lambda>_.
          io_return freedBytes)))))
       (\<lambda>error.
        io_bind (emit (Console CleanupFailed)) (\<lambda>_.
          io_return 0))"

record cleanup_decision =
  canDownload :: bool
  needsCleanup :: bool
  availableAfterCleanup :: int

definition canDownloadWithCleanup :: "int \<Rightarrow> cleanup_decision io" where
  "canDownloadWithCleanup required =
     io_bind (checkAvailableSpace required) (\<lambda>spaceCheck.
       if hasEnoughSpace spaceCheck then
         io_return \<lparr>canDownload = True, needsCleanup = False,
                    availableAfterCleanup = availableBytes spaceCheck\<rparr>
       else
         io_bind cleanupOldData (\<lambda>freedBytes.
         io_bind (checkAvailableSpace required) (\<lambda>newSpaceCheck.
           io_return \<lparr>canDownload = hasEnoughSpace newSpaceCheck, needsCleanup = True,
                      availableAfterCleanup = availableBytes newSpaceCheck\<rparr>)))"

section \<open>The download manager\<close>









subsection \<open>The offline storage service, as the component calls it\<close>







subsection \<open>The handlers\<close>







section \<open>Reading the trace and the store\<close>

text \<open>
  Every run of \<^verbatim>\<open>cleanupOldData\<close> ends with exactly one console line, the report of
  the freed bytes or the error of its \<^verbatim>\<open>catch\<close>; counting these lines counts the
  runs. Every probe attempts \<^verbatim>\<open>estimate()\<close> once.
\<close>

fun is_cleanup_end :: "event \<Rightarrow> bool" where
  "is_cleanup_end (Console (CleanupReport n)) = True"
| "is_cleanup_end (Console CleanupFailed) = True"
| "is_cleanup_end _ = False"

definition cleanup_runs :: "event list \<Rightarrow> nat" where
  "cleanup_runs t = length (filter is_cleanup_end t)"

definition estimate_calls :: "event list \<Rightarrow> nat" where
  "estimate_calls t = length (filter (\<lambda>e. e = StorageEstimate) t)"

definition persist_requests :: "event list \<Rightarrow> nat" where
  "persist_requests t = length (filter (\<lambda>e. e = StoragePersist) t)"

text \<open>The calls of the cleanup on the cache storage and on \<^verbatim>\<open>localStorage\<close>.\<close>

fun is_store_op :: "event \<Rightarrow> bool" where
  "is_store_op CachesKeys = True"
| "is_store_op (CachesDelete n) = True"
| "is_store_op (RemoveItem k) = True"
| "is_store_op _ = False"


text \<open>The buckets and the keys that the cleanup removes.\<close>

definition stale_bucket :: "string \<Rightarrow> bool" where
  "stale_bucket cacheName = (str_includes cacheName ''old'' \<or> str_includes cacheName ''temp'')"

definition temp_key :: "string \<Rightarrow> bool" where
  "temp_key k = key_matches (Some k)"

text \<open>
  Some call of the cleanup fails in this world: \<^verbatim>\<open>caches.keys()\<close> rejects, or
  \<^verbatim>\<open>caches.delete\<close> rejects for a bucket that the cleanup removes, or
  \<^verbatim>\<open>localStorage\<close> is denied.
\<close>

definition cleanup_fails :: "world \<Rightarrow> bool" where
  "cleanup_fails w =
     ((caches_in_window w \<and>
        (caches_keys_rejects w \<or>
         (\<exists>n \<in> set (cache_names w). stale_bucket n \<and> caches_delete_rejects w n)))
      \<or> localStorage_denied w)"

text \<open>
  What a pass of the cleanup does to the cache storage. The loop over the buckets stops
  at the first stale bucket whose deletion rejects: \<open>deleted_buckets\<close> are the stale
  buckets before it, \<open>attempted_buckets\<close> those and the failing one. \<open>rej\<close> tells for
  which names \<^verbatim>\<open>caches.delete\<close> rejects.
\<close>

definition deleted_buckets :: "(string \<Rightarrow> bool) \<Rightarrow> string list \<Rightarrow> string list" where
  "deleted_buckets rej ns =
     filter stale_bucket (takeWhile (\<lambda>n. \<not> (stale_bucket n \<and> rej n)) ns)"

definition attempted_buckets :: "(string \<Rightarrow> bool) \<Rightarrow> string list \<Rightarrow> string list" where
  "attempted_buckets rej ns =
     deleted_buckets rej ns @ take 1 (dropWhile (\<lambda>n. \<not> (stale_bucket n \<and> rej n)) ns)"

text \<open>The names that the loop over the buckets runs through, and the calls it makes.\<close>

definition cache_pass_names :: "world \<Rightarrow> string list" where
  "cache_pass_names w =
     (if caches_in_window w \<and> \<not> caches_keys_rejects w then cache_names w else [])"

definition cache_events :: "world \<Rightarrow> event list" where
  "cache_events w =
     (if caches_in_window w then
        CachesKeys # map CachesDelete
                       (attempted_buckets (caches_delete_rejects w) (cache_pass_names w))
      else [])"

text \<open>The part of \<^verbatim>\<open>cleanupOldData\<close> before its final \<^verbatim>\<open>console.log\<close>.\<close>

definition cleanup_pass :: "int io" where
  "cleanup_pass =
     io_bind
       (\<lambda>w. (if caches_in_window w then
               io_bind caches_keys (\<lambda>cacheNames. cleanup_caches cacheNames 0)
             else io_return 0) w) (\<lambda>freedBytes.
     io_bind (collect_keys 0 []) (\<lambda>keysToRemove.
       remove_keys keysToRemove freedBytes))"

text \<open>\<^verbatim>\<open>navigator.storage.persisted()\<close>, called now, resolves to \<^verbatim>\<open>true\<close>.\<close>

definition already_persistent :: "world \<Rightarrow> bool" where
  "already_persistent w = (fst (navigator_storage_persisted w) = Inr True)"

text \<open>
  \<open>w'\<close> is the browser \<open>w\<close> later on: the trace, the two stores and the state of the
  component may differ, the capabilities and their answers do not.
\<close>

definition same_browser :: "world \<Rightarrow> world \<Rightarrow> bool" where
  "same_browser w w' =
     (storage_in_navigator w' = storage_in_navigator w
      \<and> persist_in_storage w' = persist_in_storage w
      \<and> estimate_reply w' = estimate_reply w
      \<and> persisted_reply w' = persisted_reply w
      \<and> persist_reply w' = persist_reply w
      \<and> caches_in_window w' = caches_in_window w
      \<and> caches_keys_rejects w' = caches_keys_rejects w
      \<and> caches_delete_rejects w' = caches_delete_rejects w
      \<and> localStorage_denied w' = localStorage_denied w
      \<and> now_iso w' = now_iso w
      \<and> svc_download w' = svc_download w
      \<and> svc_downloaded w' = svc_downloaded w
      \<and> svc_is_downloaded w' = svc_is_downloaded w
      \<and> svc_update_rejects w' = svc_update_rejects w
      \<and> svc_storage_size w' = svc_storage_size w)"

text \<open>
  \<open>w'\<close> is \<open>w\<close> later on, the component is in the same state, and every event in
  between satisfies \<open>P\<close>.
\<close>

definition extends_by :: "(event \<Rightarrow> bool) \<Rightarrow> world \<Rightarrow> world \<Rightarrow> bool" where
  "extends_by P w w' =
     (same_browser w w' \<and> ui w' = ui w
      \<and> (\<exists>evs. trace w' = trace w @ evs \<and> list_all P evs))"


text \<open>Whatever the method \<open>m\<close> does, from any world, is a run of events that satisfy \<open>P\<close>.\<close>

definition only_emits :: "(event \<Rightarrow> bool) \<Rightarrow> 'a io \<Rightarrow> bool" where
  "only_emits P m = (\<forall>w. extends_by P w (snd (m w)))"



section \<open>Example browsers\<close>

text \<open>
  A browser with a quota of 10 MB of which 8 MB are used; every deleted cache bucket
  gives 1.5 MB back. Storage is not persistent, and a grant request is accepted.
\<close>

fun is_cache_delete :: "event \<Rightarrow> bool" where
  "is_cache_delete (CachesDelete n) = True"
| "is_cache_delete _ = False"

definition page :: ui_state where
  "page = \<lparr>selectedChapters = [1, 2], downloadedChapters = [], isDownloading = False,
           downloadProgress = None, overallProgress = 0, storageInfo = (0, 0),
           isOnline = True, storagePermissionOpen = False,
           estimatedDownloadSize = 148500\<rparr>"

definition browser :: world where
  "browser =
     \<lparr>storage_in_navigator = True, persist_in_storage = True,
      estimate_reply = (\<lambda>t. Some (Some 10000000,
                         Some (8000000 - 1500000 * int (length (filter is_cache_delete t))))),
      persisted_reply = (\<lambda>t. Some False),
      persist_reply = (\<lambda>t. Some True),
      caches_in_window = True, caches_keys_rejects = False,
      caches_delete_rejects = (\<lambda>n. False),
      cache_names = [''old-v1'', ''app-v2'', ''temp-img''],
      localStorage_denied = False,
      localStorage = [(''theme'', ''dark''), (''temp-x'', ''1'')],
      now_iso = ''2024-05-01T10:00:00.000Z'',
      svc_download = (\<lambda>ids. ([], True)),
      svc_downloaded = (\<lambda>t. Some []),
      svc_is_downloaded = (\<lambda>i. Some True),
      svc_update_rejects = False,
      svc_storage_size = Some (0, 0),
      ui = page, trace = []\<rparr>"

text \<open>
  Three stale buckets, of which the second cannot be deleted; a browser that refuses
  the grant; a browser whose storage is persistent.
\<close>

definition flaky_browser :: world where
  "flaky_browser =
     browser\<lparr>cache_names := [''old-a'', ''old-b'', ''old-c''],
             caches_delete_rejects := (\<lambda>n. n = ''old-b'')\<rparr>"

definition denying_browser :: world where
  "denying_browser = browser\<lparr>persist_reply := (\<lambda>t. Some False)\<rparr>"

definition persistent_browser :: world where
  "persistent_browser = browser\<lparr>persisted_reply := (\<lambda>t. Some True)\<rparr>"

section \<open>Properties\<close>

lemmas io_defs = io_return_def io_throw_def io_bind_def io_try_def emit_def of_reply_def

subsection \<open>Substrings\<close>

text \<open>\<open>str_includes\<close> is the contiguous-sublist relation of the library.\<close>

lemma starts_with_prefix: "starts_with s sub = prefix sub s"
  by (induction s sub rule: starts_with.induct) auto

lemma str_includes_sublist: "str_includes s sub = sublist sub s"
  by (induction s) (auto simp: starts_with_prefix sublist_Cons_right)

subsection \<open>The size estimate\<close>

lemma foldl_estimate:
  "foldl (\<lambda>total c. total + estimateChapterSize (verses_count c)) a cs
     = a + sum_list (map (\<lambda>c. estimateChapterSize (verses_count c)) cs)"
  by (induction cs arbitrary: a) simp_all

text \<open>
  Claim C2. The estimate of a list of chapters is the sum of the estimates of its
  elements, for every list (the verse counts need not even be non-negative); for two
  chapters it is the sum of the two estimates; and the estimate of one chapter grows
  with its verse count.
\<close>

theorem estimate_additive_monotonic:
  "estimateMultipleChaptersSize cs
     = sum_list (map (\<lambda>c. estimateChapterSize (verses_count c)) cs)
   \<and> estimateMultipleChaptersSize [c1, c2]
        = estimateChapterSize (verses_count c1) + estimateChapterSize (verses_count c2)
   \<and> (u \<le> v \<longrightarrow> estimateChapterSize u \<le> estimateChapterSize v)"
proof (intro conjI impI)
  show "estimateMultipleChaptersSize cs
          = sum_list (map (\<lambda>c. estimateChapterSize (verses_count c)) cs)"
    by (simp add: estimateMultipleChaptersSize_def foldl_estimate)
  show "estimateMultipleChaptersSize [c1, c2]
          = estimateChapterSize (verses_count c1) + estimateChapterSize (verses_count c2)"
    by (simp add: estimateMultipleChaptersSize_def)
  show "estimateChapterSize u \<le> estimateChapterSize v" if "u \<le> v"
    using that by (simp add: estimateChapterSize_def)
qed

theorem estimate_additive_monotonic_witness:
  "estimateMultipleChaptersSize [\<lparr>verses_count = 7\<rparr>, \<lparr>verses_count = 286\<rparr>] = 4500 + 144000
   \<and> (7::int) \<le> 286 \<and> estimateChapterSize 7 \<le> estimateChapterSize 286"
  using estimate_additive_monotonic
    [of "[\<lparr>verses_count = 7\<rparr>, \<lparr>verses_count = 286\<rparr>]"
        "\<lparr>verses_count = 7\<rparr>" "\<lparr>verses_count = 286\<rparr>" 7 286]
  by (simp add: estimateChapterSize_def)

text \<open>
  Claim C9. For a verse count \<open>u \<ge> 0\<close> the estimate is at least the fixed overhead of
  1000 bytes, hence positive; for no verses at all it is exactly 1000.
\<close>

theorem estimateChapterSize_overhead:
  "(0 \<le> u \<longrightarrow> 1000 \<le> estimateChapterSize u \<and> 0 < estimateChapterSize u)
   \<and> estimateChapterSize 0 = 1000"
  by (simp add: estimateChapterSize_def)

theorem estimateChapterSize_overhead_witness:
  "(0::int) \<le> 3 \<and> 1000 \<le> estimateChapterSize 3 \<and> 0 < estimateChapterSize 3
   \<and> estimateChapterSize 3 = 2500"
  using estimateChapterSize_overhead [of 3] by (simp add: estimateChapterSize_def)

subsection \<open>The quota probe and the space check\<close>

text \<open>The probe catches whatever the storage manager throws: it always returns a status.\<close>

lemma getStoragePermissionStatus_returns:
  "\<exists>s. fst (getStoragePermissionStatus w) = Inr s"
  by (simp add: getStoragePermissionStatus_def navigator_storage_estimate_def
      navigator_storage_persisted_def io_defs Let_def split: option.splits)

text \<open>Hence the \<^verbatim>\<open>catch\<close> of \<^verbatim>\<open>checkAvailableSpace\<close> is never entered.\<close>

lemma checkAvailableSpace_eq:
  assumes "getStoragePermissionStatus w = (Inr s, w')"
  shows "checkAvailableSpace required w =
     (Inr \<lparr>hasEnoughSpace = (available s \<ge> required), availableBytes = available s,
           requiredBytes = required,
           shortageBytes = (if available s \<ge> required then 0 else required - available s)\<rparr>,
      w')"
  using assms by (simp add: checkAvailableSpace_def io_defs Let_def)

text \<open>
  Claim C1. For every \<open>required\<close> and every browser, \<^verbatim>\<open>checkAvailableSpace\<close> returns
  a result \<open>r\<close> computed from the status \<open>s\<close> that the probe gives in that same world:
  its shortage is \<open>max 0 (required - available s)\<close>, and \<open>hasEnoughSpace r\<close> holds
  exactly when the shortage is 0. The check does nothing to the world but probe.
\<close>

theorem checkAvailableSpace_shortage:
  "\<exists>s r. fst (getStoragePermissionStatus w) = Inr s
       \<and> fst (checkAvailableSpace required w) = Inr r
       \<and> shortageBytes r = max 0 (required - available s)
       \<and> hasEnoughSpace r = (shortageBytes r = 0)
       \<and> snd (checkAvailableSpace required w) = snd (getStoragePermissionStatus w)"
proof -
  obtain s where s: "fst (getStoragePermissionStatus w) = Inr s"
    using getStoragePermissionStatus_returns by blast
  then have "getStoragePermissionStatus w = (Inr s, snd (getStoragePermissionStatus w))"
    by (metis prod.collapse)
  from checkAvailableSpace_eq [OF this, of required] s show ?thesis
    by (auto simp: max_def)
qed

text \<open>
  Claim C5. When the storage manager fails, the probe returns the zeroed status
  \<open>\<lparr>persistent = False, quota = 0, usage = 0, available = 0\<rparr>\<close> and throws nothing. The
  failure is any of: \<^verbatim>\<open>navigator.storage\<close> is absent; \<^verbatim>\<open>estimate()\<close> rejects;
  \<^verbatim>\<open>persisted()\<close>, called after it, rejects.
\<close>

theorem probe_failure_zeroed:
  assumes "\<not> storage_in_navigator w
     \<or> estimate_reply w (trace w) = None
     \<or> persisted_reply w (trace w @ [StorageEstimate]) = None"
  shows "fst (getStoragePermissionStatus w)
           = Inr \<lparr>persistent = False, quota = 0, usage = 0, available = 0\<rparr>"
  using assms
  by (auto simp add: getStoragePermissionStatus_def navigator_storage_estimate_def
      navigator_storage_persisted_def zeroed_status_def io_defs Let_def split: option.splits)

theorem probe_failure_zeroed_witness:
  "\<not> storage_in_navigator (browser\<lparr>storage_in_navigator := False\<rparr>)
   \<and> fst (getStoragePermissionStatus (browser\<lparr>storage_in_navigator := False\<rparr>))
       = Inr \<lparr>persistent = False, quota = 0, usage = 0, available = 0\<rparr>
   \<and> estimate_reply (browser\<lparr>estimate_reply := \<lambda>t. None\<rparr>) (trace browser) = None
   \<and> fst (getStoragePermissionStatus (browser\<lparr>estimate_reply := \<lambda>t. None\<rparr>))
       = Inr \<lparr>persistent = False, quota = 0, usage = 0, available = 0\<rparr>"
  using probe_failure_zeroed [of "browser\<lparr>storage_in_navigator := False\<rparr>"]
        probe_failure_zeroed [of "browser\<lparr>estimate_reply := \<lambda>t. None\<rparr>"]
  by (simp add: browser_def)

subsection \<open>What a method may do to the world\<close>

lemma same_browser_refl: "same_browser w w"
  by (simp add: same_browser_def)

lemma same_browser_trans: "same_browser w w1 \<Longrightarrow> same_browser w1 w2 \<Longrightarrow> same_browser w w2"
  by (simp add: same_browser_def)

lemma extends_by_refl: "extends_by P w w"
  by (simp add: extends_by_def same_browser_refl)

lemma extends_by_trans:
  assumes "extends_by P w w1" "extends_by P w1 w2"
  shows "extends_by P w w2"
proof -
  from assms obtain e1 e2 where
    "trace w1 = trace w @ e1" "list_all P e1" "trace w2 = trace w1 @ e2" "list_all P e2"
    by (auto simp: extends_by_def)
  then have "trace w2 = trace w @ (e1 @ e2)" "list_all P (e1 @ e2)" by simp_all
  moreover from assms have "same_browser w w2"
    by (auto simp: extends_by_def intro: same_browser_trans)
  moreover from assms have "ui w2 = ui w"
    by (simp add: extends_by_def)
  ultimately show ?thesis unfolding extends_by_def by blast
qed



lemma extends_by_event: "P e \<Longrightarrow> extends_by P w (w\<lparr>trace := trace w @ [e]\<rparr>)"
  by (simp add: extends_by_def same_browser_def)

lemma only_emits_return: "only_emits P (io_return x)"
  by (simp add: only_emits_def io_return_def extends_by_refl)

lemma only_emits_throw: "only_emits P (io_throw e)"
  by (simp add: only_emits_def io_throw_def extends_by_refl)

lemma only_emits_of_reply: "only_emits P (of_reply r)"
  by (cases r) (simp_all add: of_reply_def only_emits_return only_emits_throw)

lemma only_emits_emit: "P e \<Longrightarrow> only_emits P (emit e)"
  by (simp add: only_emits_def emit_def extends_by_event)

lemma only_emits_bind:
  assumes "only_emits P m" "\<And>x. only_emits P (f x)"
  shows "only_emits P (io_bind m f)"
  unfolding only_emits_def
proof
  fix w
  have 1: "extends_by P w (snd (m w))" using assms(1) by (simp add: only_emits_def)
  show "extends_by P w (snd (io_bind m f w))"
  proof (cases "m w")
    case (Pair r w1)
    show ?thesis
    proof (cases r)
      case (Inl e)
      with Pair 1 show ?thesis by (simp add: io_bind_def)
    next
      case (Inr x)
      have "extends_by P w1 (snd (f x w1))" using assms(2) by (simp add: only_emits_def)
      with 1 Pair Inr show ?thesis
        by (auto simp: io_bind_def intro: extends_by_trans)
    qed
  qed
qed

lemma only_emits_try:
  assumes "only_emits P m" "\<And>e. only_emits P (h e)"
  shows "only_emits P (io_try m h)"
  unfolding only_emits_def
proof
  fix w
  have 1: "extends_by P w (snd (m w))" using assms(1) by (simp add: only_emits_def)
  show "extends_by P w (snd (io_try m h w))"
  proof (cases "m w")
    case (Pair r w1)
    show ?thesis
    proof (cases r)
      case (Inr x)
      with Pair 1 show ?thesis by (simp add: io_try_def)
    next
      case (Inl e)
      have "extends_by P w1 (snd (h e w1))" using assms(2) by (simp add: only_emits_def)
      with 1 Pair Inl show ?thesis
        by (auto simp: io_try_def intro: extends_by_trans)
    qed
  qed
qed

lemma only_emits_world:
  assumes "\<And>w. only_emits P (g w)"
  shows "only_emits P (\<lambda>w. g w w)"
  using assms by (simp add: only_emits_def)

lemma only_emits_if:
  "only_emits P a \<Longrightarrow> only_emits P b \<Longrightarrow> only_emits P (if c then a else b)"
  by simp


lemmas only_emits_intros = only_emits_return only_emits_throw only_emits_of_reply
  only_emits_bind only_emits_try only_emits_if




lemma only_emits_caches_keys: "P CachesKeys \<Longrightarrow> only_emits P caches_keys"
  unfolding caches_keys_def
  by (rule only_emits_world) (intro only_emits_intros only_emits_emit)

lemma only_emits_caches_delete: "P (CachesDelete n) \<Longrightarrow> only_emits P (caches_delete n)"
  by (simp add: only_emits_def caches_delete_def io_defs extends_by_def same_browser_def)

lemma only_emits_removeItem: "P (RemoveItem k) \<Longrightarrow> only_emits P (localStorage_removeItem k)"
  by (simp add: only_emits_def localStorage_removeItem_def io_defs extends_by_def same_browser_def)

lemma only_emits_setItem: "P (SetItem k v) \<Longrightarrow> only_emits P (localStorage_setItem k v)"
  by (simp add: only_emits_def localStorage_setItem_def io_defs extends_by_def same_browser_def)

lemma only_emits_cleanup_caches:
  "(\<And>n. P (CachesDelete n)) \<Longrightarrow> only_emits P (cleanup_caches ns f)"
  by (induction ns arbitrary: f) (auto intro!: only_emits_intros only_emits_caches_delete)

lemma only_emits_remove_keys:
  "(\<And>k. P (RemoveItem k)) \<Longrightarrow> only_emits P (remove_keys ks f)"
  by (induction ks arbitrary: f) (auto intro!: only_emits_intros only_emits_removeItem)

subsection \<open>The grant request\<close>

lemma map_of_put_item:
  "map_of (put_item k v ps) k' = (if k' = k then Some v else map_of ps k')"
  by (induction ps) auto

lemmas request_defs = requestPersistentStorage_def navigator_storage_persisted_def
  navigator_storage_persist_def localStorage_setItem_def new_Date_toISOString_def
  isStorageAPISupported_def

text \<open>
  Claim C7. If \<^verbatim>\<open>navigator.storage.persisted()\<close> resolves to \<^verbatim>\<open>true\<close> when
  \<^verbatim>\<open>requestPersistentStorage\<close> is called, the method returns \<^verbatim>\<open>true\<close>; all it does is
  that one query and one console line: no grant request is issued (the number of
  \<^verbatim>\<open>persist()\<close> calls in the trace is unchanged) and nothing is written to
  \<^verbatim>\<open>localStorage\<close>.
\<close>

theorem request_short_circuit:
  assumes "already_persistent w"
  shows "requestPersistentStorage w
           = (Inr True, w\<lparr>trace := trace w @ [StoragePersisted, Console AlreadyPersistent]\<rparr>)
         \<and> persist_requests (trace (snd (requestPersistentStorage w))) = persist_requests (trace w)
         \<and> localStorage (snd (requestPersistentStorage w)) = localStorage w"
  using assms
  by (auto simp: already_persistent_def request_defs io_defs persist_requests_def
           split: if_splits option.splits)

theorem request_short_circuit_witness:
  "already_persistent persistent_browser
   \<and> fst (requestPersistentStorage persistent_browser) = Inr True
   \<and> trace (snd (requestPersistentStorage persistent_browser)) = [StoragePersisted, Console AlreadyPersistent]
   \<and> localStorage (snd (requestPersistentStorage persistent_browser)) = localStorage persistent_browser"
proof -
  have h: "already_persistent persistent_browser"
    by (simp add: already_persistent_def persistent_browser_def browser_def
        navigator_storage_persisted_def io_defs)
  from request_short_circuit [OF h] h show ?thesis
    by (simp add: persistent_browser_def browser_def)
qed

text \<open>
  Claim C6, as stated, fails: in \<open>denying_browser\<close> the grant request is issued and
  refused; the method records \<^verbatim>\<open>'false'\<close> under \<^verbatim>\<open>storage-permission-granted\<close> and
  no timestamp at all.
\<close>

theorem denied_grant_no_timestamp:
  "fst (requestPersistentStorage denying_browser) = Inr False
   \<and> StoragePersist \<in> set (trace (snd (requestPersistentStorage denying_browser)))
   \<and> stored (snd (requestPersistentStorage denying_browser)) ''storage-permission-granted'' = Some ''false''
   \<and> stored (snd (requestPersistentStorage denying_browser)) ''storage-permission-date'' = None"
  by (simp add: denying_browser_def browser_def request_defs io_defs stored_def)

text \<open>
  The grant request is issued exactly when the API is supported and
  \<^verbatim>\<open>persisted()\<close> resolves to \<^verbatim>\<open>false\<close>.
\<close>

lemma request_issued_iff:
  "(persist_requests (trace (snd (requestPersistentStorage w))) \<noteq> persist_requests (trace w))
   = (isStorageAPISupported w \<and> persisted_reply w (trace w) = Some False)"
  by (auto simp: request_defs io_defs persist_requests_def split: if_splits option.splits)

text \<open>
  Claim C6, amended. Whenever \<^verbatim>\<open>requestPersistentStorage\<close> issues a grant request,
  the browser answers it with \<open>granted\<close> and \<^verbatim>\<open>localStorage\<close> can be written, the
  method returns \<open>granted\<close> and records it under \<^verbatim>\<open>storage-permission-granted\<close>
  (\<^verbatim>\<open>'true'\<close> or \<^verbatim>\<open>'false'\<close>). The timestamp \<^verbatim>\<open>storage-permission-date\<close> is
  written only when the grant was given; after a refusal that entry is what it was
  before the call.
\<close>

theorem request_records_decision:
  assumes issued: "persist_requests (trace (snd (requestPersistentStorage w))) \<noteq> persist_requests (trace w)"
    and answered: "persist_reply w (trace w @ [StoragePersisted]) = Some granted"
    and writable: "\<not> localStorage_denied w"
  shows "fst (requestPersistentStorage w) = Inr granted
     \<and> stored (snd (requestPersistentStorage w)) ''storage-permission-granted''
          = Some (if granted then ''true'' else ''false'')
     \<and> (granted \<longrightarrow> stored (snd (requestPersistentStorage w)) ''storage-permission-date'' = Some (now_iso w))
     \<and> (\<not> granted \<longrightarrow> stored (snd (requestPersistentStorage w)) ''storage-permission-date''
                           = stored w ''storage-permission-date'')"
proof -
  from issued have "isStorageAPISupported w" "persisted_reply w (trace w) = Some False"
    by (simp_all add: request_issued_iff)
  with answered writable show ?thesis
    by (cases granted) (simp_all add: request_defs io_defs stored_def map_of_put_item)
qed

theorem request_records_decision_witness:
  "persist_requests (trace (snd (requestPersistentStorage browser))) \<noteq> persist_requests (trace browser)
   \<and> persist_reply browser (trace browser @ [StoragePersisted]) = Some True
   \<and> \<not> localStorage_denied browser
   \<and> fst (requestPersistentStorage browser) = Inr True
   \<and> stored (snd (requestPersistentStorage browser)) ''storage-permission-granted'' = Some ''true''
   \<and> stored (snd (requestPersistentStorage browser)) ''storage-permission-date''
        = Some ''2024-05-01T10:00:00.000Z''
   \<and> persist_requests (trace (snd (requestPersistentStorage denying_browser)))
        \<noteq> persist_requests (trace denying_browser)
   \<and> persist_reply denying_browser (trace denying_browser @ [StoragePersisted]) = Some False
   \<and> \<not> localStorage_denied denying_browser
   \<and> fst (requestPersistentStorage denying_browser) = Inr False
   \<and> stored (snd (requestPersistentStorage denying_browser)) ''storage-permission-granted''
        = Some ''false''
   \<and> stored (snd (requestPersistentStorage denying_browser)) ''storage-permission-date'' = None"
proof -
  have a: "persist_requests (trace (snd (requestPersistentStorage browser)))
             \<noteq> persist_requests (trace browser)"
    unfolding request_issued_iff by (simp add: isStorageAPISupported_def browser_def)
  have b: "persist_reply browser (trace browser @ [StoragePersisted]) = Some True"
    by (simp add: browser_def)
  have c: "\<not> localStorage_denied browser" by (simp add: browser_def)
  have a': "persist_requests (trace (snd (requestPersistentStorage denying_browser)))
             \<noteq> persist_requests (trace denying_browser)"
    unfolding request_issued_iff
    by (simp add: isStorageAPISupported_def denying_browser_def browser_def)
  have b': "persist_reply denying_browser (trace denying_browser @ [StoragePersisted]) = Some False"
    by (simp add: denying_browser_def browser_def)
  have c': "\<not> localStorage_denied denying_browser"
    by (simp add: denying_browser_def browser_def)
  from request_records_decision [OF a b c] request_records_decision [OF a' b' c'] a b c a' b' c'
  show ?thesis
    by (simp add: stored_def browser_def denying_browser_def)
qed

subsection \<open>The loops of the cleanup\<close>

lemma collect_keys_eq:
  "collect_keys i acc w =
     (if localStorage_denied w then (Inl SecurityError, w)
      else (Inr (acc @ filter temp_key (drop i (map fst (localStorage w)))), w))"
proof (induction "length (localStorage w) - i" arbitrary: i acc)
  case 0
  then show ?case
    by (subst collect_keys.simps)
       (simp add: localStorage_length_def localStorage_key_def io_return_def io_throw_def)
next
  case (Suc d)
  then have lt: "i < length (localStorage w)" and d: "d = length (localStorage w) - (i + 1)"
    by simp_all
  have dr: "drop i (map fst (localStorage w))
          = fst (localStorage w ! i) # drop (Suc i) (map fst (localStorage w))"
    using lt Cons_nth_drop_Suc [of i "map fst (localStorage w)"] by simp
  show ?case
    using lt Suc.hyps(1) [OF d]
    by (subst collect_keys.simps)
       (simp add: localStorage_length_def localStorage_key_def io_return_def io_throw_def
                  dr temp_key_def)
qed

lemma cleanup_caches_ok:
  assumes "\<forall>n\<in>set ns. stale_bucket n \<longrightarrow> \<not> caches_delete_rejects w n"
  shows "fst (cleanup_caches ns f w) = Inr (f + 1048576 * int (length (filter stale_bucket ns)))
       \<and> cache_names (snd (cleanup_caches ns f w))
           = filter (\<lambda>n. n \<notin> set (filter stale_bucket ns)) (cache_names w)
       \<and> localStorage (snd (cleanup_caches ns f w)) = localStorage w"
  using assms
proof (induction ns arbitrary: f w)
  case Nil
  then show ?case by (simp add: io_return_def)
next
  case (Cons n ns)
  show ?case
  proof (cases "stale_bucket n")
    case False
    with Cons.IH [of w f] Cons.prems show ?thesis
      by (simp add: stale_bucket_def)
  next
    case True
    let ?w1 = "w\<lparr>trace := trace w @ [CachesDelete n],
                  cache_names := filter (\<lambda>m. m \<noteq> n) (cache_names w)\<rparr>"
    have ok: "\<not> caches_delete_rejects w n" using True Cons.prems by simp
    have stale: "str_includes n ''old'' \<or> str_includes n ''temp''"
      using True by (simp add: stale_bucket_def)
    have step: "cleanup_caches (n # ns) f w = cleanup_caches ns (f + 1024 * 1024) ?w1"
      using ok stale by (simp add: caches_delete_def io_defs)
    have "\<forall>m\<in>set ns. stale_bucket m \<longrightarrow> \<not> caches_delete_rejects ?w1 m"
      using Cons.prems by simp
    from Cons.IH [OF this, of "f + 1024 * 1024"] True show ?thesis
      unfolding step by (auto intro: filter_cong)
  qed
qed

lemma cleanup_caches_fail:
  assumes "\<exists>n\<in>set ns. stale_bucket n \<and> caches_delete_rejects w n"
  shows "fst (cleanup_caches ns f w) = Inl Rejected"
  using assms
proof (induction ns arbitrary: f w)
  case Nil
  then show ?case by simp
next
  case (Cons n ns)
  show ?case
  proof (cases "stale_bucket n \<and> caches_delete_rejects w n")
    case True
    then show ?thesis by (simp add: stale_bucket_def caches_delete_def io_defs)
  next
    case False
    with Cons.prems have ex: "\<exists>m\<in>set ns. stale_bucket m \<and> caches_delete_rejects w m" by auto
    show ?thesis
    proof (cases "stale_bucket n")
      case False
      with Cons.IH [OF ex] show ?thesis by (simp add: stale_bucket_def)
    next
      case True
      let ?w1 = "w\<lparr>trace := trace w @ [CachesDelete n],
                    cache_names := filter (\<lambda>m. m \<noteq> n) (cache_names w)\<rparr>"
      have ok: "\<not> caches_delete_rejects w n"
        using True \<open>\<not> (stale_bucket n \<and> caches_delete_rejects w n)\<close> by simp
      have stale: "str_includes n ''old'' \<or> str_includes n ''temp''"
        using True by (simp add: stale_bucket_def)
      have step: "cleanup_caches (n # ns) f w = cleanup_caches ns (f + 1024 * 1024) ?w1"
        using ok stale by (simp add: caches_delete_def io_defs)
      have "\<exists>m\<in>set ns. stale_bucket m \<and> caches_delete_rejects ?w1 m" using ex by simp
      from Cons.IH [OF this] show ?thesis unfolding step .
    qed
  qed
qed

lemma remove_keys_ok:
  assumes "\<not> localStorage_denied w"
  shows "fst (remove_keys ks f w) = Inr (f + 1024 * int (length ks))
       \<and> localStorage (snd (remove_keys ks f w))
           = filter (\<lambda>p. fst p \<notin> set ks) (localStorage w)
       \<and> cache_names (snd (remove_keys ks f w)) = cache_names w"
  using assms
proof (induction ks arbitrary: f w)
  case Nil
  then show ?case by (simp add: io_return_def)
next
  case (Cons k ks)
  let ?w1 = "w\<lparr>trace := trace w @ [RemoveItem k],
                localStorage := filter (\<lambda>p. fst p \<noteq> k) (localStorage w)\<rparr>"
  have step: "remove_keys (k # ks) f w = remove_keys ks (f + 1024) ?w1"
    using Cons.prems by (simp add: localStorage_removeItem_def io_defs)
  have "\<not> localStorage_denied ?w1" using Cons.prems by simp
  from Cons.IH [OF this, of "f + 1024"] show ?case
    unfolding step by (auto intro: filter_cong)
qed

lemma io_bind_Inl: "fst (m w) = Inl e \<Longrightarrow> fst (io_bind m f w) = Inl e"
  by (cases "m w") (simp add: io_bind_def)

lemma io_bind_Inr: "m w = (Inr x, w1) \<Longrightarrow> io_bind m f w = f x w1"
  by (simp add: io_bind_def)

lemma io_bind_assoc: "io_bind (io_bind m f) g = io_bind m (\<lambda>x. io_bind (f x) g)"
  by (rule ext) (simp add: io_bind_def split: prod.splits sum.splits)

lemma only_emits_collect_keys: "only_emits P (collect_keys i acc)"
  by (simp add: only_emits_def collect_keys_eq extends_by_refl)

lemma extends_by_count:
  assumes "extends_by P w w'" "\<And>e. P e \<Longrightarrow> \<not> Q e"
  shows "length (filter Q (trace w')) = length (filter Q (trace w))"
proof -
  from assms(1) obtain evs where "trace w' = trace w @ evs" "list_all P evs"
    by (auto simp: extends_by_def)
  moreover from this assms(2) have "filter Q evs = []"
    by (auto simp: list_all_iff filter_empty_conv)
  ultimately show ?thesis by simp
qed

lemma cleanupOldData_pass:
  "cleanupOldData =
     io_try
       (io_bind cleanup_pass (\<lambda>freedBytes.
        io_bind (emit (Console (CleanupReport freedBytes))) (\<lambda>_. io_return freedBytes)))
       (\<lambda>error. io_bind (emit (Console CleanupFailed)) (\<lambda>_. io_return 0))"
  by (simp add: cleanupOldData_def cleanup_pass_def io_bind_assoc)

lemma only_emits_cleanup_pass: "only_emits is_store_op cleanup_pass"
  unfolding cleanup_pass_def
proof (rule only_emits_bind)
  show "only_emits is_store_op
          (\<lambda>w. (if caches_in_window w then
                  io_bind caches_keys (\<lambda>cacheNames. cleanup_caches cacheNames 0)
                else io_return 0) w)"
    by (rule only_emits_world)
       (simp add: only_emits_bind only_emits_return only_emits_caches_keys
                  only_emits_cleanup_caches)
  show "only_emits is_store_op
          (io_bind (collect_keys 0 []) (\<lambda>keysToRemove. remove_keys keysToRemove freedBytes))"
    for freedBytes
    by (simp add: only_emits_bind only_emits_collect_keys only_emits_remove_keys)
qed

lemma cleanupOldData_eq:
  "cleanupOldData w =
     (case cleanup_pass w of
        (Inl e, w1) \<Rightarrow> (Inr 0, w1\<lparr>trace := trace w1 @ [Console CleanupFailed]\<rparr>)
      | (Inr n, w1) \<Rightarrow> (Inr n, w1\<lparr>trace := trace w1 @ [Console (CleanupReport n)]\<rparr>))"
  by (simp add: cleanupOldData_pass io_defs split: prod.splits sum.splits)

lemma cleanupOldData_shape:
  "\<exists>w1 c. extends_by is_store_op w w1 \<and> is_cleanup_end c
     \<and> snd (cleanupOldData w) = w1\<lparr>trace := trace w1 @ [c]\<rparr>"
proof (cases "cleanup_pass w")
  case (Pair r w1)
  have "extends_by is_store_op w (snd (cleanup_pass w))"
    using only_emits_cleanup_pass by (simp add: only_emits_def)
  with Pair have ext: "extends_by is_store_op w w1" by simp
  show ?thesis
  proof (cases r)
    case (Inl e)
    with Pair ext show ?thesis
      by (intro exI [of _ w1] exI [of _ "Console CleanupFailed"]) (simp add: cleanupOldData_eq)
  next
    case (Inr n)
    with Pair ext show ?thesis
      by (intro exI [of _ w1] exI [of _ "Console (CleanupReport n)"])
         (simp add: cleanupOldData_eq)
  qed
qed

lemma cleanupOldData_returns: "\<exists>n. fst (cleanupOldData w) = Inr n"
  by (simp add: cleanupOldData_eq split: prod.splits sum.splits)

lemma store_op_not_cleanup_end: "is_store_op e \<Longrightarrow> \<not> is_cleanup_end e"
  by (cases e) simp_all

lemma store_op_not_estimate: "is_store_op e \<Longrightarrow> \<not> e = StorageEstimate"
  by (cases e) simp_all

lemma cleanupOldData_counts:
  "cleanup_runs (trace (snd (cleanupOldData w))) = cleanup_runs (trace w) + 1
   \<and> estimate_calls (trace (snd (cleanupOldData w))) = estimate_calls (trace w)
   \<and> same_browser w (snd (cleanupOldData w))"
proof -
  obtain w1 c where ext: "extends_by is_store_op w w1" and c: "is_cleanup_end c"
    and w': "snd (cleanupOldData w) = w1\<lparr>trace := trace w1 @ [c]\<rparr>"
    using cleanupOldData_shape [of w] by blast
  have 1: "length (filter is_cleanup_end (trace w1)) = length (filter is_cleanup_end (trace w))"
    using ext by (rule extends_by_count) (rule store_op_not_cleanup_end)
  have 2: "length (filter (\<lambda>e. e = StorageEstimate) (trace w1))
         = length (filter (\<lambda>e. e = StorageEstimate) (trace w))"
    using ext by (rule extends_by_count) (rule store_op_not_estimate)
  have 3: "c \<noteq> StorageEstimate" using c by (cases c) simp_all
  from ext have "same_browser w w1" by (simp add: extends_by_def)
  then have "same_browser w (w1\<lparr>trace := trace w1 @ [c]\<rparr>)" by (simp add: same_browser_def)
  with 1 2 3 c w' show ?thesis by (simp add: cleanup_runs_def estimate_calls_def)
qed

lemma filter_not_in_filter: "filter (\<lambda>x. x \<notin> set (filter P xs)) xs = filter (\<lambda>x. \<not> P x) xs"
  by (auto intro: filter_cong)

lemma filter_fst_not_in:
  "filter (\<lambda>p. fst p \<notin> set (filter P (map fst ps))) ps = filter (\<lambda>p. \<not> P (fst p)) ps"
  by (auto intro: filter_cong)

lemma cleanup_pass_ok:
  assumes "\<not> cleanup_fails w"
  shows "fst (cleanup_pass w)
           = Inr (1048576 * int (length (filter stale_bucket
                                   (if caches_in_window w then cache_names w else [])))
                  + 1024 * int (length (filter temp_key (map fst (localStorage w)))))
       \<and> cache_names (snd (cleanup_pass w))
           = (if caches_in_window w then filter (\<lambda>n. \<not> stale_bucket n) (cache_names w)
              else cache_names w)
       \<and> localStorage (snd (cleanup_pass w))
           = filter (\<lambda>p. \<not> temp_key (fst p)) (localStorage w)"
proof -
  define A :: "int io" where
    "A = (\<lambda>w. (if caches_in_window w then
               io_bind caches_keys (\<lambda>cacheNames. cleanup_caches cacheNames 0)
             else io_return 0) w)"
  have pass: "cleanup_pass = io_bind A (\<lambda>freedBytes.
       io_bind (collect_keys 0 []) (\<lambda>keysToRemove. remove_keys keysToRemove freedBytes))"
    by (simp add: cleanup_pass_def A_def)
  let ?F1 = "1048576 * int (length (filter stale_bucket
                                   (if caches_in_window w then cache_names w else [])))"
  from assms have open_ls: "\<not> localStorage_denied w" by (simp add: cleanup_fails_def)
  have A: "fst (A w) = Inr ?F1
         \<and> cache_names (snd (A w))
             = (if caches_in_window w then filter (\<lambda>n. \<not> stale_bucket n) (cache_names w)
                else cache_names w)
         \<and> localStorage (snd (A w)) = localStorage w
         \<and> \<not> localStorage_denied (snd (A w))"
  proof (cases "caches_in_window w")
    case False
    with open_ls show ?thesis by (simp add: A_def io_return_def)
  next
    case True
    let ?w0 = "w\<lparr>trace := trace w @ [CachesKeys]\<rparr>"
    from assms True have keys: "\<not> caches_keys_rejects w"
      and del: "\<forall>n\<in>set (cache_names w). stale_bucket n \<longrightarrow> \<not> caches_delete_rejects ?w0 n"
      by (auto simp: cleanup_fails_def)
    have eq: "A w = cleanup_caches (cache_names w) 0 ?w0"
      using True keys by (simp add: A_def caches_keys_def io_defs)
    have "only_emits is_store_op (cleanup_caches (cache_names w) 0)"
      by (simp add: only_emits_cleanup_caches)
    then have "same_browser ?w0 (snd (cleanup_caches (cache_names w) 0 ?w0))"
      by (simp add: only_emits_def extends_by_def)
    then have "\<not> localStorage_denied (snd (cleanup_caches (cache_names w) 0 ?w0))"
      using open_ls by (simp add: same_browser_def)
    with cleanup_caches_ok [OF del, of 0] True show ?thesis
      unfolding eq by (auto intro: filter_cong)
  qed
  obtain w1 where Aw: "A w = (Inr ?F1, w1)"
    using A by (cases "A w") simp
  with A have w1: "cache_names w1
             = (if caches_in_window w then filter (\<lambda>n. \<not> stale_bucket n) (cache_names w)
                else cache_names w)"
      "localStorage w1 = localStorage w" "\<not> localStorage_denied w1"
    by simp_all
  let ?keys = "filter temp_key (map fst (localStorage w))"
  have eq: "cleanup_pass w = remove_keys ?keys ?F1 w1"
    unfolding pass
    by (subst io_bind_Inr [of A w ?F1 w1, OF Aw]) (simp add: io_bind_def collect_keys_eq w1)
  have "filter (\<lambda>p. fst p \<notin> set ?keys) (localStorage w)
          = filter (\<lambda>p. \<not> temp_key (fst p)) (localStorage w)"
    by (rule filter_fst_not_in)
  with remove_keys_ok [OF w1(3), of ?keys ?F1] w1 show ?thesis
    unfolding eq by (simp add: o_def)
qed

lemma cleanup_pass_fail:
  assumes "cleanup_fails w"
  shows "\<exists>e. fst (cleanup_pass w) = Inl e"
proof -
  define A :: "int io" where
    "A = (\<lambda>w. (if caches_in_window w then
               io_bind caches_keys (\<lambda>cacheNames. cleanup_caches cacheNames 0)
             else io_return 0) w)"
  have pass: "cleanup_pass = io_bind A (\<lambda>freedBytes.
       io_bind (collect_keys 0 []) (\<lambda>keysToRemove. remove_keys keysToRemove freedBytes))"
    by (simp add: cleanup_pass_def A_def)
  show ?thesis
  proof (cases "A w")
    case (Pair r w1)
    show ?thesis
    proof (cases r)
      case (Inl e)
      with Pair have "fst (cleanup_pass w) = Inl e"
        unfolding pass by (intro io_bind_Inl) simp
      then show ?thesis by blast
    next
      case (Inr f1)
      have caches_fine: "\<not> (caches_in_window w \<and>
        (caches_keys_rejects w \<or>
         (\<exists>n \<in> set (cache_names w). stale_bucket n \<and> caches_delete_rejects w n)))"
      proof
        assume bad: "caches_in_window w \<and>
          (caches_keys_rejects w \<or>
           (\<exists>n \<in> set (cache_names w). stale_bucket n \<and> caches_delete_rejects w n))"
        show False
        proof (cases "caches_keys_rejects w")
          case True
          with bad Pair Inr show False by (simp add: A_def caches_keys_def io_defs)
        next
          case False
          let ?w0 = "w\<lparr>trace := trace w @ [CachesKeys]\<rparr>"
          from bad False have
            "\<exists>n \<in> set (cache_names w). stale_bucket n \<and> caches_delete_rejects ?w0 n"
            by simp
          from cleanup_caches_fail [OF this, of 0] bad False Pair Inr show False
            by (simp add: A_def caches_keys_def io_defs)
        qed
      qed
      with assms have denied: "localStorage_denied w" by (auto simp: cleanup_fails_def)
      have "only_emits is_store_op A"
        unfolding A_def
        by (rule only_emits_world)
           (simp add: only_emits_bind only_emits_return only_emits_caches_keys
                      only_emits_cleanup_caches)
      then have "same_browser w (snd (A w))"
        unfolding only_emits_def extends_by_def by blast
      with Pair denied have "localStorage_denied w1" by (simp add: same_browser_def)
      with Pair Inr have "fst (cleanup_pass w) = Inl SecurityError"
        unfolding pass
        by (subst io_bind_Inr [of A w f1 w1]) (simp_all add: io_bind_def collect_keys_eq)
      then show ?thesis by blast
    qed
  qed
qed

text \<open>The run of the pass in every world, failing or not.\<close>

lemma io_bind_Inl_world: "m w = (Inl e, w1) \<Longrightarrow> io_bind m f w = (Inl e, w1)"
  by (simp add: io_bind_def)

lemma cleanup_caches_run:
  "fst (cleanup_caches ns f w)
     = (if list_all (\<lambda>n. \<not> (stale_bucket n \<and> caches_delete_rejects w n)) ns
        then Inr (f + 1048576 * int (length (filter stale_bucket ns)))
        else Inl Rejected)
   \<and> trace (snd (cleanup_caches ns f w))
       = trace w @ map CachesDelete (attempted_buckets (caches_delete_rejects w) ns)
   \<and> cache_names (snd (cleanup_caches ns f w))
       = filter (\<lambda>n. n \<notin> set (deleted_buckets (caches_delete_rejects w) ns)) (cache_names w)
   \<and> localStorage (snd (cleanup_caches ns f w)) = localStorage w"
proof (induction ns arbitrary: f w)
  case Nil
  show ?case by (simp add: io_return_def attempted_buckets_def deleted_buckets_def)
next
  case (Cons n ns)
  show ?case
  proof (cases "stale_bucket n")
    case False
    then have "cleanup_caches (n # ns) f w = cleanup_caches ns f w"
      by (simp add: stale_bucket_def)
    with Cons.IH [of f w] False show ?thesis
      by (simp add: attempted_buckets_def deleted_buckets_def)
  next
    case stale: True
    then have inc: "str_includes n ''old'' \<or> str_includes n ''temp''"
      by (simp add: stale_bucket_def)
    show ?thesis
    proof (cases "caches_delete_rejects w n")
      case True
      have "cleanup_caches (n # ns) f w = (Inl Rejected, w\<lparr>trace := trace w @ [CachesDelete n]\<rparr>)"
        using inc True by (simp add: caches_delete_def io_defs)
      with stale True show ?thesis
        by (simp add: attempted_buckets_def deleted_buckets_def)
    next
      case False
      let ?w1 = "w\<lparr>trace := trace w @ [CachesDelete n],
                    cache_names := filter (\<lambda>m. m \<noteq> n) (cache_names w)\<rparr>"
      have step: "cleanup_caches (n # ns) f w = cleanup_caches ns (f + 1024 * 1024) ?w1"
        using inc False by (simp add: caches_delete_def io_defs)
      have rej: "caches_delete_rejects ?w1 = caches_delete_rejects w" by simp
      from Cons.IH [of "f + 1024 * 1024" ?w1] stale False show ?thesis
        unfolding step rej
        by (auto simp: attempted_buckets_def deleted_buckets_def intro: filter_cong)
    qed
  qed
qed

lemma remove_keys_trace:
  assumes "\<not> localStorage_denied w"
  shows "trace (snd (remove_keys ks f w)) = trace w @ map RemoveItem ks"
  using assms
proof (induction ks arbitrary: f w)
  case Nil
  then show ?case by (simp add: io_return_def)
next
  case (Cons k ks)
  let ?w1 = "w\<lparr>trace := trace w @ [RemoveItem k],
                localStorage := filter (\<lambda>p. fst p \<noteq> k) (localStorage w)\<rparr>"
  have step: "remove_keys (k # ks) f w = remove_keys ks (f + 1024) ?w1"
    using Cons.prems by (simp add: localStorage_removeItem_def io_defs)
  have "\<not> localStorage_denied ?w1" using Cons.prems by simp
  from Cons.IH [OF this, of "f + 1024"] show ?case
    unfolding step by simp
qed

lemma cleanup_pass_run:
  "trace (snd (cleanup_pass w))
     = trace w @ cache_events w
       @ (if cleanup_fails w then []
          else map RemoveItem (filter temp_key (map fst (localStorage w))))
   \<and> cache_names (snd (cleanup_pass w))
       = filter (\<lambda>n. n \<notin> set (deleted_buckets (caches_delete_rejects w) (cache_pass_names w)))
           (cache_names w)
   \<and> (cleanup_fails w \<longrightarrow> localStorage (snd (cleanup_pass w)) = localStorage w)"
proof -
  define A :: "int io" where
    "A = (\<lambda>w. (if caches_in_window w then
               io_bind caches_keys (\<lambda>cacheNames. cleanup_caches cacheNames 0)
             else io_return 0) w)"
  have pass: "cleanup_pass = io_bind A (\<lambda>freedBytes.
       io_bind (collect_keys 0 []) (\<lambda>keysToRemove. remove_keys keysToRemove freedBytes))"
    by (simp add: cleanup_pass_def A_def)
  define cache_fails where
    "cache_fails = (caches_in_window w \<and>
        (caches_keys_rejects w \<or>
         (\<exists>n \<in> set (cache_names w). stale_bucket n \<and> caches_delete_rejects w n)))"
  have fails: "cleanup_fails w = (cache_fails \<or> localStorage_denied w)"
    by (simp add: cleanup_fails_def cache_fails_def)
  let ?names' = "filter (\<lambda>n. n \<notin> set (deleted_buckets (caches_delete_rejects w)
                                          (cache_pass_names w))) (cache_names w)"
  have A: "(cache_fails \<longrightarrow> (\<exists>e. fst (A w) = Inl e))
         \<and> (\<not> cache_fails \<longrightarrow> (\<exists>f1. fst (A w) = Inr f1))
         \<and> trace (snd (A w)) = trace w @ cache_events w
         \<and> cache_names (snd (A w)) = ?names'
         \<and> localStorage (snd (A w)) = localStorage w"
  proof (cases "caches_in_window w")
    case False
    then show ?thesis
      by (simp add: A_def io_return_def cache_fails_def cache_events_def cache_pass_names_def
            deleted_buckets_def)
  next
    case win: True
    show ?thesis
    proof (cases "caches_keys_rejects w")
      case True
      with win show ?thesis
        by (simp add: A_def caches_keys_def io_defs cache_fails_def cache_events_def
              cache_pass_names_def deleted_buckets_def attempted_buckets_def)
    next
      case False
      let ?w0 = "w\<lparr>trace := trace w @ [CachesKeys]\<rparr>"
      have eq: "A w = cleanup_caches (cache_names w) 0 ?w0"
        using win False by (simp add: A_def caches_keys_def io_defs)
      have rej: "caches_delete_rejects ?w0 = caches_delete_rejects w" by simp
      from cleanup_caches_run [of "cache_names w" 0 ?w0] win False show ?thesis
        unfolding eq rej
        by (auto simp: cache_fails_def cache_events_def cache_pass_names_def list_all_iff)
    qed
  qed
  have "only_emits is_store_op A"
    unfolding A_def
    by (rule only_emits_world)
       (simp add: only_emits_bind only_emits_return only_emits_caches_keys
                  only_emits_cleanup_caches)
  then have "same_browser w (snd (A w))"
    unfolding only_emits_def extends_by_def by blast
  then have den: "localStorage_denied (snd (A w)) = localStorage_denied w"
    by (simp add: same_browser_def)
  show ?thesis
  proof (cases "A w")
    case (Pair r w1)
    with A den have w1: "trace w1 = trace w @ cache_events w" "cache_names w1 = ?names'"
      "localStorage w1 = localStorage w" "localStorage_denied w1 = localStorage_denied w"
      by simp_all
    show ?thesis
    proof (cases r)
      case (Inl e)
      with Pair A have cf: "cache_fails" by auto
      from Pair Inl have "cleanup_pass w = (Inl e, w1)"
        unfolding pass by (simp add: io_bind_def)
      with w1 cf fails show ?thesis by simp
    next
      case (Inr f1)
      with Pair A have cf: "\<not> cache_fails" by auto
      show ?thesis
      proof (cases "localStorage_denied w")
        case True
        with Pair Inr w1 have "cleanup_pass w = (Inl SecurityError, w1)"
          unfolding pass by (simp add: io_bind_def collect_keys_eq)
        with w1 True fails show ?thesis by simp
      next
        case False
        let ?keys = "filter temp_key (map fst (localStorage w))"
        from Pair Inr w1 False have eq: "cleanup_pass w = remove_keys ?keys f1 w1"
          unfolding pass by (simp add: io_bind_def collect_keys_eq)
        have open_ls: "\<not> localStorage_denied w1" using w1 False by simp
        from remove_keys_trace [OF open_ls, of ?keys f1] remove_keys_ok [OF open_ls, of ?keys f1]
          w1 cf False fails
        show ?thesis unfolding eq by simp
      qed
    qed
  qed
qed

subsection \<open>The cleanup as a whole\<close>

text \<open>
  Claim C3, as stated, fails: in \<open>flaky_browser\<close> the bucket \<^verbatim>\<open>old-a\<close> is deleted,
  the deletion of \<^verbatim>\<open>old-b\<close> rejects, and that ends the pass: \<^verbatim>\<open>old-c\<close> is never
  tried, the key \<^verbatim>\<open>temp-x\<close> stays, and the result is 0, not the bytes of \<^verbatim>\<open>old-a\<close>.
\<close>

theorem cleanup_aborts_on_failure:
  "fst (cleanupOldData flaky_browser) = Inr 0
   \<and> trace (snd (cleanupOldData flaky_browser))
       = [CachesKeys, CachesDelete ''old-a'', CachesDelete ''old-b'', Console CleanupFailed]
   \<and> cache_names (snd (cleanupOldData flaky_browser)) = [''old-b'', ''old-c'']
   \<and> localStorage (snd (cleanupOldData flaky_browser)) = [(''theme'', ''dark''), (''temp-x'', ''1'')]"
  by (simp add: flaky_browser_def browser_def cleanupOldData_def caches_keys_def
      caches_delete_def io_defs)

text \<open>
  Claim C3, amended. \<^verbatim>\<open>cleanupOldData\<close> never throws, and changes nothing but the two
  stores and the trace. It has one \<^verbatim>\<open>catch\<close> around its whole body and none per
  entry. If a call of the pass fails (\<^verbatim>\<open>caches.keys()\<close> rejects, \<^verbatim>\<open>caches.delete\<close>
  rejects for a stale bucket, or \<^verbatim>\<open>localStorage\<close> is denied), the pass ends at that
  call: the stale buckets before the failing one are deleted, no bucket after it is
  tried, no key is removed, the console gets the error line, and the result is 0.
  If no call fails, every stale bucket and every temporary key is removed, and the
  result, which is also reported on the console, is 1048576 for each such bucket plus
  1024 for each such key.
\<close>

theorem cleanupOldData_single_handler:
  "(\<exists>n. fst (cleanupOldData w) = Inr n)
   \<and> same_browser w (snd (cleanupOldData w))
   \<and> ui (snd (cleanupOldData w)) = ui w
   \<and> cache_names (snd (cleanupOldData w))
       = filter (\<lambda>n. n \<notin> set (deleted_buckets (caches_delete_rejects w) (cache_pass_names w)))
           (cache_names w)
   \<and> (cleanup_fails w \<longrightarrow>
        fst (cleanupOldData w) = Inr 0
        \<and> localStorage (snd (cleanupOldData w)) = localStorage w
        \<and> trace (snd (cleanupOldData w))
            = trace w @ cache_events w @ [Console CleanupFailed])
   \<and> (\<not> cleanup_fails w \<longrightarrow>
        fst (cleanupOldData w)
          = Inr (1048576 * int (length (filter stale_bucket
                                  (if caches_in_window w then cache_names w else [])))
                 + 1024 * int (length (filter temp_key (map fst (localStorage w)))))
        \<and> cache_names (snd (cleanupOldData w))
            = (if caches_in_window w then filter (\<lambda>n. \<not> stale_bucket n) (cache_names w)
               else cache_names w)
        \<and> localStorage (snd (cleanupOldData w))
            = filter (\<lambda>p. \<not> temp_key (fst p)) (localStorage w)
        \<and> trace (snd (cleanupOldData w))
            = trace w @ cache_events w
              @ map RemoveItem (filter temp_key (map fst (localStorage w)))
              @ [Console (CleanupReport
                   (1048576 * int (length (filter stale_bucket
                                     (if caches_in_window w then cache_names w else [])))
                    + 1024 * int (length (filter temp_key (map fst (localStorage w))))))])"
proof -
  obtain r w1 where pass: "cleanup_pass w = (r, w1)" by (cases "cleanup_pass w")
  note run = cleanup_pass_run [of w, unfolded pass, simplified]
  have "extends_by is_store_op w (snd (cleanup_pass w))"
    using only_emits_cleanup_pass by (simp add: only_emits_def)
  with pass have frame: "same_browser w w1" "ui w1 = ui w"
    by (simp_all add: extends_by_def)
  show ?thesis
  proof (cases "cleanup_fails w")
    case True
    then obtain e where "fst (cleanup_pass w) = Inl e" using cleanup_pass_fail by blast
    with pass have r: "r = Inl e" by simp
    have eq: "cleanupOldData w = (Inr 0, w1\<lparr>trace := trace w1 @ [Console CleanupFailed]\<rparr>)"
      by (simp add: cleanupOldData_eq pass r)
    from run frame True show ?thesis
      unfolding eq by (simp add: same_browser_def)
  next
    case False
    let ?N = "1048576 * int (length (filter stale_bucket
                                  (if caches_in_window w then cache_names w else [])))
                 + 1024 * int (length (filter temp_key (map fst (localStorage w))))"
    note ok = cleanup_pass_ok [OF False, unfolded pass, simplified]
    from ok have r: "r = Inr ?N" by simp
    have eq: "cleanupOldData w = (Inr ?N, w1\<lparr>trace := trace w1 @ [Console (CleanupReport ?N)]\<rparr>)"
      by (simp add: cleanupOldData_eq pass r)
    from run ok frame False show ?thesis
      unfolding eq by (simp add: same_browser_def)
  qed
qed

theorem cleanupOldData_single_handler_witness:
  "cleanup_fails flaky_browser \<and> fst (cleanupOldData flaky_browser) = Inr 0
   \<and> cache_names (snd (cleanupOldData flaky_browser)) = [''old-b'', ''old-c'']
   \<and> localStorage (snd (cleanupOldData flaky_browser)) = [(''theme'', ''dark''), (''temp-x'', ''1'')]
   \<and> trace (snd (cleanupOldData flaky_browser))
       = [CachesKeys, CachesDelete ''old-a'', CachesDelete ''old-b'', Console CleanupFailed]
   \<and> \<not> cleanup_fails browser \<and> fst (cleanupOldData browser) = Inr 2098176
   \<and> cache_names (snd (cleanupOldData browser)) = [''app-v2'']
   \<and> localStorage (snd (cleanupOldData browser)) = [(''theme'', ''dark'')]
   \<and> trace (snd (cleanupOldData browser))
       = [CachesKeys, CachesDelete ''old-v1'', CachesDelete ''temp-img'',
          RemoveItem ''temp-x'', Console (CleanupReport 2098176)]"
proof -
  have f: "cleanup_fails flaky_browser"
    by (simp add: cleanup_fails_def flaky_browser_def browser_def stale_bucket_def)
  have g: "\<not> cleanup_fails browser"
    by (simp add: cleanup_fails_def browser_def stale_bucket_def)
  have a: "cache_events flaky_browser = [CachesKeys, CachesDelete ''old-a'', CachesDelete ''old-b'']"
    "deleted_buckets (caches_delete_rejects flaky_browser) (cache_pass_names flaky_browser)
       = [''old-a'']"
    by (simp_all add: cache_events_def cache_pass_names_def attempted_buckets_def
          deleted_buckets_def flaky_browser_def browser_def stale_bucket_def)
  have b: "cache_events browser = [CachesKeys, CachesDelete ''old-v1'', CachesDelete ''temp-img'']"
    "deleted_buckets (caches_delete_rejects browser) (cache_pass_names browser)
       = [''old-v1'', ''temp-img'']"
    by (simp_all add: cache_events_def cache_pass_names_def attempted_buckets_def
          deleted_buckets_def browser_def stale_bucket_def)
  from cleanupOldData_single_handler [of flaky_browser] f a
  have 1: "fst (cleanupOldData flaky_browser) = Inr 0
   \<and> cache_names (snd (cleanupOldData flaky_browser)) = [''old-b'', ''old-c'']
   \<and> localStorage (snd (cleanupOldData flaky_browser)) = [(''theme'', ''dark''), (''temp-x'', ''1'')]
   \<and> trace (snd (cleanupOldData flaky_browser))
       = [CachesKeys, CachesDelete ''old-a'', CachesDelete ''old-b'', Console CleanupFailed]"
    by (simp add: flaky_browser_def browser_def)
  have vals: "cache_names browser = [''old-v1'', ''app-v2'', ''temp-img'']"
    "localStorage browser = [(''theme'', ''dark''), (''temp-x'', ''1'')]"
    "trace browser = []" "caches_in_window browser"
    by (simp_all add: browser_def)
  from cleanupOldData_single_handler [of browser] g b vals
  have 2: "fst (cleanupOldData browser) = Inr 2098176
   \<and> cache_names (snd (cleanupOldData browser)) = [''app-v2'']
   \<and> localStorage (snd (cleanupOldData browser)) = [(''theme'', ''dark'')]
   \<and> trace (snd (cleanupOldData browser))
       = [CachesKeys, CachesDelete ''old-v1'', CachesDelete ''temp-img'',
          RemoveItem ''temp-x'', Console (CleanupReport 2098176)]"
    by (simp add: stale_bucket_def temp_key_def key_matches_def)
  from f g 1 2 show ?thesis by simp
qed

subsection \<open>Cleanup and one more check\<close>

lemma probe_shape:
  "\<exists>evs. snd (getStoragePermissionStatus w) = w\<lparr>trace := trace w @ StorageEstimate # evs\<rparr>
     \<and> list_all (\<lambda>e. e = StoragePersisted \<or> e = Console StorageStatusFailed) evs"
proof -
  let ?ok = "\<lambda>evs. list_all (\<lambda>e. e = StoragePersisted \<or> e = Console StorageStatusFailed) evs"
  have "snd (getStoragePermissionStatus w)
          \<in> (\<lambda>evs. w\<lparr>trace := trace w @ StorageEstimate # evs\<rparr>) `
              {[Console StorageStatusFailed], [StoragePersisted],
               [StoragePersisted, Console StorageStatusFailed]}"
    by (simp add: getStoragePermissionStatus_def navigator_storage_estimate_def
        navigator_storage_persisted_def io_defs Let_def split: option.splits)
  then obtain evs where "snd (getStoragePermissionStatus w) = w\<lparr>trace := trace w @ StorageEstimate # evs\<rparr>"
    and "evs \<in> {[Console StorageStatusFailed], [StoragePersisted],
               [StoragePersisted, Console StorageStatusFailed]}"
    by blast
  moreover from this have "?ok evs" by auto
  ultimately show ?thesis by blast
qed

lemma probe_counts:
  assumes "getStoragePermissionStatus w = (r, w1)"
  shows "cleanup_runs (trace w1) = cleanup_runs (trace w)
       \<and> estimate_calls (trace w1) = estimate_calls (trace w) + 1
       \<and> cache_names w1 = cache_names w \<and> localStorage w1 = localStorage w
       \<and> ui w1 = ui w \<and> same_browser w w1"
proof -
  obtain evs where w1: "w1 = w\<lparr>trace := trace w @ StorageEstimate # evs\<rparr>"
    and evs: "list_all (\<lambda>e. e = StoragePersisted \<or> e = Console StorageStatusFailed) evs"
    using probe_shape [of w] assms by auto
  from evs have "filter is_cleanup_end evs = []" "filter (\<lambda>e. e = StorageEstimate) evs = []"
    by (auto simp: list_all_iff filter_empty_conv)
  with w1 show ?thesis
    by (simp add: cleanup_runs_def estimate_calls_def same_browser_def)
qed

lemma canDownloadWithCleanup_eq:
  assumes "getStoragePermissionStatus w = (Inr s, w1)"
  shows "canDownloadWithCleanup required w =
     (if required \<le> available s then
        (Inr \<lparr>canDownload = True, needsCleanup = False,
              availableAfterCleanup = available s\<rparr>, w1)
      else
        io_bind cleanupOldData (\<lambda>freedBytes.
        io_bind (checkAvailableSpace required) (\<lambda>newSpaceCheck.
          io_return \<lparr>canDownload = hasEnoughSpace newSpaceCheck, needsCleanup = True,
                     availableAfterCleanup = availableBytes newSpaceCheck\<rparr>)) w1)"
  by (simp add: canDownloadWithCleanup_def checkAvailableSpace_eq [OF assms] io_bind_def io_return_def)

text \<open>
  Claim C4. Let the probe in the world \<open>w\<close> give the status \<open>s\<close> and leave the world
  \<open>w1\<close>. If \<open>required \<le> available s\<close>, \<^verbatim>\<open>canDownloadWithCleanup\<close> returns
  \<^verbatim>\<open>canDownload = true, needsCleanup = false\<close> in the world \<open>w1\<close>: only the probe has
  run, no cleanup has (no cleanup line in the trace, both stores as they were).
  Otherwise it runs \<^verbatim>\<open>cleanupOldData\<close> once and \<^verbatim>\<open>checkAvailableSpace\<close> once more and
  answers from that second check: the trace has one cleanup run and two probes more.
\<close>

theorem canDownloadWithCleanup_once:
  assumes probe: "getStoragePermissionStatus w = (Inr s, w1)"
  shows "(required \<le> available s \<longrightarrow>
            canDownloadWithCleanup required w
              = (Inr \<lparr>canDownload = True, needsCleanup = False,
                      availableAfterCleanup = available s\<rparr>, w1)
            \<and> cleanup_runs (trace w1) = cleanup_runs (trace w)
            \<and> estimate_calls (trace w1) = estimate_calls (trace w) + 1
            \<and> cache_names w1 = cache_names w \<and> localStorage w1 = localStorage w)
       \<and> (\<not> required \<le> available s \<longrightarrow>
            (\<exists>freed w2 r2 w3.
               cleanupOldData w1 = (Inr freed, w2)
             \<and> checkAvailableSpace required w2 = (Inr r2, w3)
             \<and> canDownloadWithCleanup required w
                 = (Inr \<lparr>canDownload = hasEnoughSpace r2, needsCleanup = True,
                         availableAfterCleanup = availableBytes r2\<rparr>, w3)
             \<and> cleanup_runs (trace w3) = cleanup_runs (trace w) + 1
             \<and> estimate_calls (trace w3) = estimate_calls (trace w) + 2))"
proof (intro conjI impI)
  assume "required \<le> available s"
  then show "canDownloadWithCleanup required w
              = (Inr \<lparr>canDownload = True, needsCleanup = False,
                      availableAfterCleanup = available s\<rparr>, w1)"
    by (simp add: canDownloadWithCleanup_eq [OF probe])
next
  show "cleanup_runs (trace w1) = cleanup_runs (trace w)"
       "estimate_calls (trace w1) = estimate_calls (trace w) + 1"
       "cache_names w1 = cache_names w" "localStorage w1 = localStorage w"
    using probe_counts [OF probe] by simp_all
next
  assume short: "\<not> required \<le> available s"
  obtain freed where "fst (cleanupOldData w1) = Inr freed"
    using cleanupOldData_returns by blast
  then obtain w2 where clean: "cleanupOldData w1 = (Inr freed, w2)"
    by (cases "cleanupOldData w1") simp
  obtain s2 where "fst (getStoragePermissionStatus w2) = Inr s2"
    using getStoragePermissionStatus_returns by blast
  then obtain w3 where probe2: "getStoragePermissionStatus w2 = (Inr s2, w3)"
    by (cases "getStoragePermissionStatus w2") simp
  note check2 = checkAvailableSpace_eq [OF probe2, of required]
  have result: "canDownloadWithCleanup required w
      = (Inr \<lparr>canDownload = (required \<le> available s2), needsCleanup = True,
              availableAfterCleanup = available s2\<rparr>, w3)"
    using short by (simp add: canDownloadWithCleanup_eq [OF probe] io_bind_def clean check2 io_return_def)
  from cleanupOldData_counts [of w1] clean
  have c2: "cleanup_runs (trace w2) = cleanup_runs (trace w1) + 1"
           "estimate_calls (trace w2) = estimate_calls (trace w1)" by simp_all
  from probe_counts [OF probe] probe_counts [OF probe2] c2
  have counts: "cleanup_runs (trace w3) = cleanup_runs (trace w) + 1"
               "estimate_calls (trace w3) = estimate_calls (trace w) + 2" by simp_all
  from clean check2 result counts
  show "\<exists>freed w2 r2 w3.
               cleanupOldData w1 = (Inr freed, w2)
             \<and> checkAvailableSpace required w2 = (Inr r2, w3)
             \<and> canDownloadWithCleanup required w
                 = (Inr \<lparr>canDownload = hasEnoughSpace r2, needsCleanup = True,
                         availableAfterCleanup = availableBytes r2\<rparr>, w3)
             \<and> cleanup_runs (trace w3) = cleanup_runs (trace w) + 1
             \<and> estimate_calls (trace w3) = estimate_calls (trace w) + 2"
    by (intro exI [of _ freed] exI [of _ w2] exI [of _ w3]
          exI [of _ "\<lparr>hasEnoughSpace = (required \<le> available s2), availableBytes = available s2,
           requiredBytes = required,
           shortageBytes = (if required \<le> available s2 then 0 else required - available s2)\<rparr>"])
       simp
qed

lemma browser_probe:
  "getStoragePermissionStatus browser
     = (Inr \<lparr>persistent = False, quota = 10000000, usage = 8000000, available = 2000000\<rparr>,
        browser\<lparr>trace := [StorageEstimate, StoragePersisted]\<rparr>)"
  by (simp add: browser_def getStoragePermissionStatus_def navigator_storage_estimate_def
        navigator_storage_persisted_def io_defs Let_def or_zero_def)

lemmas run_defs = getStoragePermissionStatus_def navigator_storage_estimate_def
        navigator_storage_persisted_def io_defs Let_def or_zero_def checkAvailableSpace_def
        canDownloadWithCleanup_def cleanupOldData_def caches_keys_def caches_delete_def
        collect_keys_eq localStorage_removeItem_def temp_key_def key_matches_def

lemma scenario_B:
  "fst (canDownloadWithCleanup 4000000 browser)
     = Inr \<lparr>canDownload = True, needsCleanup = True, availableAfterCleanup = 5000000\<rparr>"
  by (simp add: browser_def run_defs)

lemma cleanup_not_enough:
  "fst (canDownloadWithCleanup 9000000 browser)
     = Inr \<lparr>canDownload = False, needsCleanup = True, availableAfterCleanup = 5000000\<rparr>"
  by (simp add: browser_def run_defs)

lemma no_cleanup_needed:
  "fst (canDownloadWithCleanup 1000000 browser)
     = Inr \<lparr>canDownload = True, needsCleanup = False, availableAfterCleanup = 2000000\<rparr>"
  by (simp add: browser_def run_defs)

theorem canDownloadWithCleanup_once_witness:
  "getStoragePermissionStatus browser
     = (Inr \<lparr>persistent = False, quota = 10000000, usage = 8000000, available = 2000000\<rparr>,
        browser\<lparr>trace := [StorageEstimate, StoragePersisted]\<rparr>)
   \<and> (1000000::int) \<le> 2000000
   \<and> fst (canDownloadWithCleanup 1000000 browser)
       = Inr \<lparr>canDownload = True, needsCleanup = False, availableAfterCleanup = 2000000\<rparr>
   \<and> cleanup_runs (trace (snd (canDownloadWithCleanup 1000000 browser))) = 0
   \<and> \<not> (4000000::int) \<le> 2000000
   \<and> fst (canDownloadWithCleanup 4000000 browser)
       = Inr \<lparr>canDownload = True, needsCleanup = True, availableAfterCleanup = 5000000\<rparr>
   \<and> cleanup_runs (trace (snd (canDownloadWithCleanup 4000000 browser))) = 1
   \<and> estimate_calls (trace (snd (canDownloadWithCleanup 4000000 browser))) = 2"
  using canDownloadWithCleanup_once [OF browser_probe, of 1000000]
        canDownloadWithCleanup_once [OF browser_probe, of 4000000]
        browser_probe scenario_B
  by (auto simp: cleanup_runs_def estimate_calls_def browser_def)

text \<open>
  Claim C10. \<^verbatim>\<open>needsCleanup\<close> in the result of \<^verbatim>\<open>canDownloadWithCleanup\<close> is true
  exactly when the space check in the initial world reports too little space
  (\<open>hasEnoughSpace\<close> false). The second check has no part in it: in \<open>browser\<close>,
  \<^verbatim>\<open>needsCleanup\<close> is true both when the cleanup frees enough (4 MB wanted) and when
  it does not (9 MB wanted).
\<close>

theorem needsCleanup_iff_initial_shortage:
  "(\<exists>r d. fst (checkAvailableSpace required w) = Inr r
         \<and> fst (canDownloadWithCleanup required w) = Inr d
         \<and> needsCleanup d = (\<not> hasEnoughSpace r))
   \<and> fst (canDownloadWithCleanup 4000000 browser)
       = Inr \<lparr>canDownload = True, needsCleanup = True, availableAfterCleanup = 5000000\<rparr>
   \<and> fst (canDownloadWithCleanup 9000000 browser)
       = Inr \<lparr>canDownload = False, needsCleanup = True, availableAfterCleanup = 5000000\<rparr>"
proof (intro conjI)
  obtain s where "fst (getStoragePermissionStatus w) = Inr s"
    using getStoragePermissionStatus_returns by blast
  then obtain w1 where probe: "getStoragePermissionStatus w = (Inr s, w1)"
    by (cases "getStoragePermissionStatus w") simp
  obtain freed where "fst (cleanupOldData w1) = Inr freed"
    using cleanupOldData_returns by blast
  then obtain w2 where clean: "cleanupOldData w1 = (Inr freed, w2)"
    by (cases "cleanupOldData w1") simp
  obtain s2 where "fst (getStoragePermissionStatus w2) = Inr s2"
    using getStoragePermissionStatus_returns by blast
  then obtain w3 where probe2: "getStoragePermissionStatus w2 = (Inr s2, w3)"
    by (cases "getStoragePermissionStatus w2") simp
  show "\<exists>r d. fst (checkAvailableSpace required w) = Inr r
         \<and> fst (canDownloadWithCleanup required w) = Inr d
         \<and> needsCleanup d = (\<not> hasEnoughSpace r)"
    by (simp add: canDownloadWithCleanup_eq [OF probe] checkAvailableSpace_eq [OF probe]
          io_bind_def clean checkAvailableSpace_eq [OF probe2] io_return_def)
qed (rule scenario_B, rule cleanup_not_enough)

subsection \<open>The pre-flight of a download\<close>

















end
